theory Spec2Isabelle
  imports Main "HOL-Library.AList"
begin

section \<open>Instruction objects\<close>

text \<open>
  A register identifier is whatever the program puts into \<open>reads\<close> and \<open>writes\<close>: a
  string such as \<open>''R1''\<close>, or Python's \<open>None\<close>. \<open>truthy\<close> is the truth value Python
  gives it in \<open>if r and ...\<close>: \<open>None\<close> and the empty string are false.
\<close>

type_synonym reg = "string option"

definition truthy :: "reg \<Rightarrow> bool" where
  "truthy r = (case r of None \<Rightarrow> False | Some n \<Rightarrow> n \<noteq> [])"

record Instruction =
  name :: string
  reads :: "reg list"
  writes :: "reg list"
  is_branch :: bool
  predicted_taken :: "bool option"
  actual_taken :: "bool option"

text \<open>\<open>Instruction.__init__\<close>: \<open>reads or []\<close> turns an absent argument into the empty list.\<close>

definition Instruction_init ::
  "string \<Rightarrow> reg list option \<Rightarrow> reg list option \<Rightarrow> bool \<Rightarrow> Instruction" where
  "Instruction_init nm rds wrs br =
     \<lparr>name = nm,
      reads = (case rds of None \<Rightarrow> [] | Some rs \<Rightarrow> rs),
      writes = (case wrs of None \<Rightarrow> [] | Some ws \<Rightarrow> ws),
      is_branch = br,
      predicted_taken = None,
      actual_taken = None\<rparr>"

definition create_load :: "string \<Rightarrow> reg \<Rightarrow> reg \<Rightarrow> Instruction" where
  "create_load nm target_reg value_source_reg =
     Instruction_init nm (Some (if truthy value_source_reg then [value_source_reg] else []))
       (Some [target_reg]) False"

definition create_alu :: "string \<Rightarrow> reg list option \<Rightarrow> reg list option \<Rightarrow> Instruction" where
  "create_alu nm rds wrs = Instruction_init nm rds wrs False"

definition create_branch :: "string \<Rightarrow> reg list option \<Rightarrow> reg list option \<Rightarrow> Instruction" where
  "create_branch nm rds wrs =
     Instruction_init nm (Some (case rds of None \<Rightarrow> [] | Some rs \<Rightarrow> rs))
       (Some (case wrs of None \<Rightarrow> [] | Some ws \<Rightarrow> ws)) True"

text \<open>
  Instruction objects are mutable and are shared by reference: the backlog and the
  slots hold references, and the two prediction fields are written through them. The
  store maps an object identity to the object's current fields.
\<close>

type_synonym addr = nat
type_synonym store = "addr \<Rightarrow> Instruction"

text \<open>The objects of a freshly built program, allocated at the identities \<open>0, 1, ...\<close>.\<close>

definition objects_of :: "Instruction list \<Rightarrow> store" where
  "objects_of xs a = (if a < length xs then xs ! a else Instruction_init [] None None False)"

section \<open>The branch predictor\<close>

text \<open>
  The engine calls \<open>predict\<close> and \<open>actual_outcome\<close> on whatever predictor object it was
  given. A predictor is modelled by its two methods over the predictor's own state
  \<open>'p\<close>; each call returns the answer and the state afterwards.
\<close>

record 'p predictor =
  predict :: "'p \<Rightarrow> Instruction \<Rightarrow> bool \<times> 'p"
  actual_outcome :: "'p \<Rightarrow> Instruction \<Rightarrow> bool \<times> 'p"

text \<open>
  \<open>SimpleBranchPredictor\<close>: its state is the mode string and the random source.
  \<open>random_bits p k\<close> is the outcome of the \<open>k\<close>-th next call into Python's \<open>random\<close>
  module: the value picked by \<open>random.choice([True, False])\<close>, or the truth value of
  \<open>random.random() < 0.4\<close>.
\<close>

record SimpleBranchPredictor =
  mode :: string
  random_bits :: "nat \<Rightarrow> bool"

definition draw :: "SimpleBranchPredictor \<Rightarrow> bool \<times> SimpleBranchPredictor" where
  "draw p = (random_bits p 0, p\<lparr>random_bits := (\<lambda>k. random_bits p (Suc k))\<rparr>)"

definition SimpleBranchPredictor_predict ::
  "SimpleBranchPredictor \<Rightarrow> Instruction \<Rightarrow> bool \<times> SimpleBranchPredictor" where
  "SimpleBranchPredictor_predict p instr =
     (if mode p = ''static_taken'' then (True, p)
      else if mode p = ''static_not_taken'' then (False, p)
      else draw p)"

definition SimpleBranchPredictor_actual_outcome ::
  "SimpleBranchPredictor \<Rightarrow> Instruction \<Rightarrow> bool \<times> SimpleBranchPredictor" where
  "SimpleBranchPredictor_actual_outcome p instr = draw p"

definition simple_predictor :: "SimpleBranchPredictor predictor" where
  "simple_predictor =
     \<lparr>predict = SimpleBranchPredictor_predict,
      actual_outcome = SimpleBranchPredictor_actual_outcome\<rparr>"

section \<open>The pipeline engine\<close>

text \<open>
  The keys of a cycle's event record are Python tuples of three shapes:
  \<open>(index, 1)\<close> for a prediction, \<open>("stall", cycle)\<close> and \<open>("branch", index)\<close> for the
  tagged events, and \<open>(stage,)\<close> for the snapshot. The record itself is a dict, kept
  here as an association list in insertion order; \<open>d[k] = v\<close> is \<open>AList.update k v d\<close>.
\<close>

datatype evkey = IdxKey nat nat | TagKey string nat | StageKey nat

type_synonym cycle_events = "(evkey \<times> string) list"
type_synonym slot = "(nat \<times> addr) option"

record 'p Pipeline =
  stages :: "string list"
  instr_queue :: "addr list"
  pipeline_regs :: "slot list"
  cycle :: nat
  stalls :: nat
  flushed :: nat
  branch_predictor :: 'p
  timeline :: "cycle_events list"
  heap :: store

text \<open>
  \<open>Pipeline.__init__\<close>. The store is the one the instruction objects live in when the
  engine is built. The observer list only drives the display and is left out:
  \<open>notify\<close> changes nothing of the engine.
\<close>

definition Pipeline_init :: "string list \<Rightarrow> addr list \<Rightarrow> 'p \<Rightarrow> store \<Rightarrow> 'p Pipeline" where
  "Pipeline_init stgs instructions bp h =
     \<lparr>stages = stgs,
      instr_queue = instructions,
      pipeline_regs = replicate (length stgs) None,
      cycle = 0,
      stalls = 0,
      flushed = 0,
      branch_predictor = bp,
      timeline = [],
      heap = h\<rparr>"

datatype error = IndexError

text \<open>
  The call \<open>Pipeline(stages, instructions, branch_predictor)\<close> as a fallible operation:
  \<open>__init__\<close> has no \<open>raise\<close> and no operation that can fail on lists, so the call
  returns the object.
\<close>

definition Pipeline_new ::
  "string list \<Rightarrow> addr list \<Rightarrow> 'p \<Rightarrow> store \<Rightarrow> error + 'p Pipeline" where
  "Pipeline_new stgs instructions bp h = Inr (Pipeline_init stgs instructions bp h)"

text \<open>Python list indexing with a non-negative constant: out of range raises.\<close>

definition list_get :: "'a list \<Rightarrow> nat \<Rightarrow> error + 'a" where
  "list_get xs i = (if i < length xs then Inr (xs ! i) else Inl IndexError)"

definition list_set :: "'a list \<Rightarrow> nat \<Rightarrow> 'a \<Rightarrow> error + 'a list" where
  "list_set xs i v = (if i < length xs then Inr (xs[i := v]) else Inl IndexError)"

definition bindE :: "error + 'a \<Rightarrow> ('a \<Rightarrow> error + 'b) \<Rightarrow> error + 'b" where
  "bindE m f = (case m of Inl e \<Rightarrow> Inl e | Inr x \<Rightarrow> f x)"

text \<open>\<open>detect_data_hazard\<close>: the loop over \<open>instr.reads\<close>.\<close>

fun reads_hit :: "reg list \<Rightarrow> reg list \<Rightarrow> bool" where
  "reads_hit [] ws = False"
| "reads_hit (r # rs) ws = (if truthy r \<and> r \<in> set ws then True else reads_hit rs ws)"

definition detect_data_hazard :: "Instruction \<Rightarrow> Instruction option \<Rightarrow> bool" where
  "detect_data_hazard instr earlier_instr =
     (case earlier_instr of None \<Rightarrow> False | Some e \<Rightarrow> reads_hit (reads instr) (writes e))"

text \<open>Lines 60 to 65 of \<open>step\<close>: the value of \<open>stall_needed\<close>.\<close>

definition stall_needed :: "store \<Rightarrow> slot \<Rightarrow> slot \<Rightarrow> bool" where
  "stall_needed h id_instr ex_instr =
     (case id_instr of None \<Rightarrow> False
      | Some i \<Rightarrow>
          (case ex_instr of None \<Rightarrow> False
           | Some e \<Rightarrow> detect_data_hazard (h (snd i)) (Some (h (snd e)))))"

text \<open>Lines 66 to 68: the prediction for the instruction in the decode slot.\<close>

definition predict_stage ::
  "'p predictor \<Rightarrow> 'p Pipeline \<Rightarrow> slot \<Rightarrow> cycle_events \<Rightarrow> 'p Pipeline \<times> cycle_events" where
  "predict_stage P s id_instr ev =
     (case id_instr of None \<Rightarrow> (s, ev)
      | Some i \<Rightarrow>
          if is_branch (heap s (snd i)) \<and> predicted_taken (heap s (snd i)) = None then
            (s\<lparr>branch_predictor := snd (predict P (branch_predictor s) (heap s (snd i))),
               heap := (heap s)(snd i := (heap s (snd i))
                 \<lparr>predicted_taken :=
                    Some (fst (predict P (branch_predictor s) (heap s (snd i))))\<rparr>)\<rparr>,
             AList.update (IdxKey (fst i) 1)
               (if fst (predict P (branch_predictor s) (heap s (snd i)))
                then ''PRED:T'' else ''PRED:N'') ev)
          else (s, ev))"

text \<open>Lines 74 to 76 and 78 to 81: the slot assignments of the two paths.\<close>

definition shift_stall :: "slot list \<Rightarrow> error + slot list" where
  "shift_stall regs =
     bindE (list_get regs 3) (\<lambda>r3. bindE (list_set regs 4 r3) (\<lambda>regs.
     bindE (list_get regs 2) (\<lambda>r2. bindE (list_set regs 3 r2) (\<lambda>regs.
     list_set regs 2 None))))"

definition shift_normal :: "slot list \<Rightarrow> error + slot list" where
  "shift_normal regs =
     bindE (list_get regs 3) (\<lambda>r3. bindE (list_set regs 4 r3) (\<lambda>regs.
     bindE (list_get regs 2) (\<lambda>r2. bindE (list_set regs 3 r2) (\<lambda>regs.
     bindE (list_get regs 1) (\<lambda>r1. bindE (list_set regs 2 r1) (\<lambda>regs.
     bindE (list_get regs 0) (\<lambda>r0. list_set regs 1 r0)))))))"

text \<open>
  Lines 83 to 88: what the fetch puts into slot 0, and the fetch itself. The index of
  a fetched instruction is the length of the timeline at that moment.
\<close>

definition fetch_entry :: "'p Pipeline \<Rightarrow> slot" where
  "fetch_entry s =
     (case instr_queue s of [] \<Rightarrow> None | instr # rest \<Rightarrow> Some (length (timeline s), instr))"

definition fetch :: "'p Pipeline \<Rightarrow> error + 'p Pipeline" where
  "fetch s =
     bindE (list_set (pipeline_regs s) 0 (fetch_entry s))
       (\<lambda>regs. Inr (s\<lparr>pipeline_regs := regs, instr_queue := tl (instr_queue s)\<rparr>))"

text \<open>
  Lines 57 to 88: the cycle counter, the hazard check, the prediction and the stage
  shift. The result is the engine before branch resolution, with the events recorded
  so far.
\<close>

definition advance_stages ::
  "'p predictor \<Rightarrow> 'p Pipeline \<Rightarrow> error + 'p Pipeline \<times> cycle_events" where
  "advance_stages P s0 =
     (let s = s0\<lparr>cycle := cycle s0 + 1\<rparr> in
      bindE (list_get (pipeline_regs s) 1) (\<lambda>id_instr.
      bindE (list_get (pipeline_regs s) 2) (\<lambda>ex_instr.
        let st = stall_needed (heap s) id_instr ex_instr;
            sp = predict_stage P s id_instr []
        in if st then
             bindE (shift_stall (pipeline_regs (fst sp)))
               (\<lambda>regs. Inr ((fst sp)\<lparr>stalls := stalls (fst sp) + 1, pipeline_regs := regs\<rparr>,
                  AList.update (TagKey ''stall'' (cycle (fst sp))) ''DATA_STALL'' (snd sp)))
           else
             bindE (shift_normal (pipeline_regs (fst sp)))
               (\<lambda>regs. bindE (fetch ((fst sp)\<lparr>pipeline_regs := regs\<rparr>))
                  (\<lambda>s'. Inr (s', snd sp))))))"

text \<open>
  Lines 96 to 99: the squash. A slot holds \<open>None\<close> or a pair, and a pair is true in
  Python, so the two tests are tests for occupancy.
\<close>

definition squash :: "slot list \<Rightarrow> slot list" where
  "squash regs =
     (let regs1 = (if regs ! 0 \<noteq> None then regs[0 := None] else regs)
      in (if regs1 ! 1 \<noteq> None then regs1[1 := None] else regs1))"

text \<open>Lines 89 to 101: branch resolution on the occupant of slot 2 after the shift.\<close>

definition resolve_stage ::
  "'p predictor \<Rightarrow> 'p Pipeline \<Rightarrow> cycle_events \<Rightarrow> 'p Pipeline \<times> cycle_events" where
  "resolve_stage P s ev =
     (case pipeline_regs s ! 2 of None \<Rightarrow> (s, ev)
      | Some e \<Rightarrow>
          if is_branch (heap s (snd e)) then
            (let b = fst (actual_outcome P (branch_predictor s) (heap s (snd e)));
                 s1 = s\<lparr>branch_predictor :=
                           snd (actual_outcome P (branch_predictor s) (heap s (snd e))),
                        heap := (heap s)(snd e := (heap s (snd e))\<lparr>actual_taken := Some b\<rparr>)\<rparr>
             in if predicted_taken (heap s1 (snd e)) \<noteq> actual_taken (heap s1 (snd e)) then
                  (s1\<lparr>flushed := flushed s1 + 1, pipeline_regs := squash (pipeline_regs s1)\<rparr>,
                   AList.update (TagKey ''branch'' (fst e)) ''MISPREDICT'' ev)
                else (s1, AList.update (TagKey ''branch'' (fst e)) ''PRED_CORRECT'' ev))
          else (s, ev))"

text \<open>Lines 103 to 110: the snapshot loop over \<open>range(stages_count)\<close>.\<close>

fun snapshot :: "store \<Rightarrow> slot list \<Rightarrow> nat list \<Rightarrow> cycle_events \<Rightarrow> error + cycle_events" where
  "snapshot h regs [] ev = Inr ev"
| "snapshot h regs (s_idx # rest) ev =
     bindE (list_get regs s_idx) (\<lambda>entry.
       snapshot h regs rest
         (AList.update (StageKey s_idx)
            (case entry of None \<Rightarrow> [] | Some e \<Rightarrow> name (h (snd e))) ev))"

text \<open>\<open>Pipeline.step\<close>.\<close>

definition step :: "'p predictor \<Rightarrow> 'p Pipeline \<Rightarrow> error + 'p Pipeline" where
  "step P s =
     bindE (advance_stages P s) (\<lambda>se.
       let sr = resolve_stage P (fst se) (snd se) in
       bindE (snapshot (heap (fst sr)) (pipeline_regs (fst sr))
                [0..<length (stages (fst sr))] (snd sr))
         (\<lambda>ev. Inr ((fst sr)\<lparr>timeline := timeline (fst sr) @ [ev]\<rparr>)))"

text \<open>\<open>Pipeline.is_done\<close>.\<close>

definition is_done :: "'p Pipeline \<Rightarrow> bool" where
  "is_done s =
     (if list_ex (\<lambda>e. e \<noteq> None) (pipeline_regs s) then False
      else if instr_queue s \<noteq> [] then False
      else True)"

text \<open>Calling \<open>step\<close> \<open>n\<close> times; an exception ends the run.\<close>

fun run :: "'p predictor \<Rightarrow> nat \<Rightarrow> 'p Pipeline \<Rightarrow> error + 'p Pipeline" where
  "run P 0 s = Inr s"
| "run P (Suc n) s = bindE (step P s) (run P n)"

text \<open>\<open>sample_program\<close> and the stage list of \<open>main\<close>.\<close>

definition sample_program :: "Instruction list" where
  "sample_program =
     [create_load ''I1: LOAD R1'' (Some ''R1'') None,
      create_alu ''I2: ADD R2,R1'' (Some [Some ''R1'']) (Some [Some ''R2'']),
      create_branch ''I3: BEQ R2,0 -> LABEL'' (Some [Some ''R2'']) None,
      create_alu ''I4: ADD R3,R5'' (Some [Some ''R5'']) (Some [Some ''R3'']),
      create_alu ''I5: SUB R6,R7'' (Some [Some ''R7'']) (Some [Some ''R6''])]"

definition main_stages :: "string list" where
  "main_stages = [''IF'', ''ID'', ''EX'', ''MEM'', ''WB'']"

section \<open>Auxiliary notions and sample engines\<close>

text \<open>Branch resolution: the two outcomes.\<close>

definition mispredicted :: "'p predictor \<Rightarrow> 'p Pipeline \<Rightarrow> bool" where
  "mispredicted P s =
     (case pipeline_regs s ! 2 of None \<Rightarrow> False
      | Some e \<Rightarrow> is_branch (heap s (snd e)) \<and>
          predicted_taken (heap s (snd e)) \<noteq>
            Some (fst (actual_outcome P (branch_predictor s) (heap s (snd e)))))"

definition state_after :: "'p predictor \<Rightarrow> nat \<Rightarrow> 'p Pipeline \<Rightarrow> 'p Pipeline" where
  "state_after P n s = (case run P n s of Inl e \<Rightarrow> s | Inr s' \<Rightarrow> s')"

definition not_taken_resolved_taken :: SimpleBranchPredictor where
  "not_taken_resolved_taken = \<lparr>mode = ''static_not_taken'', random_bits = (\<lambda>k. True)\<rparr>"

definition sample_engine :: "SimpleBranchPredictor Pipeline" where
  "sample_engine =
     Pipeline_init main_stages [0, 1, 2, 3, 4] not_taken_resolved_taken (objects_of sample_program)"

lemmas engine_eval =
  state_after_def sample_engine_def not_taken_resolved_taken_def Pipeline_init_def main_stages_def
  objects_of_def sample_program_def create_load_def create_alu_def create_branch_def
  Instruction_init_def truthy_def simple_predictor_def SimpleBranchPredictor_predict_def
  SimpleBranchPredictor_actual_outcome_def draw_def step_def advance_stages_def
  list_get_def list_set_def stall_needed_def detect_data_hazard_def predict_stage_def
  shift_stall_def shift_normal_def fetch_def fetch_entry_def squash_def resolve_stage_def
  Let_def numeral_eq_Suc

definition falsy_regs_program :: "Instruction list" where
  "falsy_regs_program =
     [create_alu ''A'' None (Some [None, Some []]),
      create_alu ''B'' (Some [None, Some []]) None,
      create_alu ''C'' None None]"

definition falsy_regs_engine :: "SimpleBranchPredictor Pipeline" where
  "falsy_regs_engine =
     Pipeline_init main_stages [0, 1, 2] not_taken_resolved_taken (objects_of falsy_regs_program)"

definition three_stage_engine :: "SimpleBranchPredictor Pipeline" where
  "three_stage_engine =
     Pipeline_init [''IF'', ''ID'', ''EX''] [0, 1, 2, 3, 4] not_taken_resolved_taken
       (objects_of sample_program)"

definition two_stage_engine :: "error + SimpleBranchPredictor Pipeline" where
  "two_stage_engine =
     Pipeline_new [''IF'', ''ID''] [0, 1, 2, 3, 4] not_taken_resolved_taken
       (objects_of sample_program)"

definition branch_engine :: "SimpleBranchPredictor Pipeline" where
  "branch_engine =
     Pipeline_init main_stages [2, 3, 4] not_taken_resolved_taken (objects_of sample_program)"

definition advanced :: "'p predictor \<Rightarrow> 'p Pipeline \<Rightarrow> 'p Pipeline \<times> cycle_events" where
  "advanced P s = (case advance_stages P s of Inl e \<Rightarrow> (s, []) | Inr se \<Rightarrow> se)"

text \<open>
  A predictor whose two answers are functions \<open>f\<close> and \<open>g\<close> of the instruction alone, on
  the predictor states that satisfy \<open>I\<close> (and the calls keep the state within \<open>I\<close>).
\<close>

definition deterministic_on ::
  "('p \<Rightarrow> bool) \<Rightarrow> 'p predictor \<Rightarrow> (Instruction \<Rightarrow> bool) \<Rightarrow> (Instruction \<Rightarrow> bool) \<Rightarrow> bool" where
  "deterministic_on I P f g =
     (\<forall>p i. I p \<longrightarrow>
        fst (predict P p i) = f i \<and> fst (actual_outcome P p i) = g i \<and>
        I (snd (predict P p i)) \<and> I (snd (actual_outcome P p i)))"

text \<open>Two engines that agree on everything but the predictor's own state.\<close>

definition same_view :: "'p Pipeline \<Rightarrow> 'q Pipeline \<Rightarrow> bool" where
  "same_view s t =
     (stages s = stages t \<and> instr_queue s = instr_queue t \<and>
      pipeline_regs s = pipeline_regs t \<and> cycle s = cycle t \<and> stalls s = stalls t \<and>
      flushed s = flushed t \<and> timeline s = timeline t \<and> heap s = heap t)"

text \<open>
  A test double in the sense of the determinism property: the static prediction of
  \<open>SimpleBranchPredictor\<close>, with an outcome that is always "taken".
\<close>

definition static_test_predictor :: "SimpleBranchPredictor predictor" where
  "static_test_predictor =
     \<lparr>predict = SimpleBranchPredictor_predict, actual_outcome = (\<lambda>p instr. (True, p))\<rparr>"

definition bits_true :: SimpleBranchPredictor where
  "bits_true = \<lparr>mode = ''static_not_taken'', random_bits = (\<lambda>k. True)\<rparr>"

definition bits_false :: SimpleBranchPredictor where
  "bits_false = \<lparr>mode = ''static_not_taken'', random_bits = (\<lambda>k. False)\<rparr>"

section \<open>Properties of one cycle\<close>

lemma bindE_Inr [simp]: "bindE (Inr x) f = f x"
  by (simp add: bindE_def)

lemma bindE_Inl [simp]: "bindE (Inl e) f = Inl e"
  by (simp add: bindE_def)

lemma bindE_eq_Inr: "bindE m f = Inr y \<longleftrightarrow> (\<exists>x. m = Inr x \<and> f x = Inr y)"
  by (cases m) simp_all

lemma error_is_IndexError: "(e::error) = IndexError"
  by (cases e) simp

lemma list_get_ok [simp]: "i < length xs \<Longrightarrow> list_get xs i = Inr (xs ! i)"
  by (simp add: list_get_def)

lemma list_set_ok [simp]: "i < length xs \<Longrightarrow> list_set xs i v = Inr (xs[i := v])"
  by (simp add: list_set_def)

lemma list_get_err [simp]: "length xs \<le> i \<Longrightarrow> list_get xs i = Inl IndexError"
  by (simp add: list_get_def)

lemma list_set_err [simp]: "length xs \<le> i \<Longrightarrow> list_set xs i v = Inl IndexError"
  by (simp add: list_set_def)

lemma shift_stall_ok:
  "5 \<le> length regs \<Longrightarrow> shift_stall regs = Inr (regs[4 := regs ! 3, 3 := regs ! 2, 2 := None])"
  by (simp add: shift_stall_def)

lemma shift_normal_ok:
  "5 \<le> length regs \<Longrightarrow>
   shift_normal regs = Inr (regs[4 := regs ! 3, 3 := regs ! 2, 2 := regs ! 1, 1 := regs ! 0])"
proof -
  assume len: "5 \<le> length regs"
  then have "regs \<noteq> []" by auto
  with len show ?thesis by (simp add: shift_normal_def)
qed

lemma shift_stall_err: "length regs < 5 \<Longrightarrow> shift_stall regs = Inl IndexError"
  by (cases "length regs \<le> 3") (simp_all add: shift_stall_def)

lemma shift_normal_err: "length regs < 5 \<Longrightarrow> shift_normal regs = Inl IndexError"
  by (cases "length regs \<le> 3") (simp_all add: shift_normal_def)

lemma predict_stage_frame:
  "pipeline_regs (fst (predict_stage P s i ev)) = pipeline_regs s"
  "instr_queue (fst (predict_stage P s i ev)) = instr_queue s"
  "cycle (fst (predict_stage P s i ev)) = cycle s"
  "stalls (fst (predict_stage P s i ev)) = stalls s"
  "flushed (fst (predict_stage P s i ev)) = flushed s"
  "timeline (fst (predict_stage P s i ev)) = timeline s"
  "stages (fst (predict_stage P s i ev)) = stages s"
  by (simp_all add: predict_stage_def split: option.splits)

lemma advance_stages_err:
  "length (pipeline_regs s) < 5 \<Longrightarrow> advance_stages P s = Inl IndexError"
  apply (cases "length (pipeline_regs s) \<le> 1")
   apply (simp add: advance_stages_def)
  apply (cases "length (pipeline_regs s) \<le> 2")
   apply (simp add: advance_stages_def)
  apply (simp add: advance_stages_def Let_def predict_stage_frame shift_stall_err shift_normal_err)
  done

lemma step_err: "length (pipeline_regs s) < 5 \<Longrightarrow> step P s = Inl IndexError"
  by (simp add: step_def advance_stages_err)

lemma fetch_ok:
  "pipeline_regs s \<noteq> [] \<Longrightarrow>
   fetch s = Inr (s\<lparr>pipeline_regs := (pipeline_regs s)[0 := fetch_entry s],
                     instr_queue := tl (instr_queue s)\<rparr>)"
  by (simp add: fetch_def)

lemma advance_stages_ok:
  assumes "5 \<le> length (pipeline_regs s)"
  shows "advance_stages P s =
     Inr (if stall_needed (heap s) (pipeline_regs s ! 1) (pipeline_regs s ! 2) then
            ((fst (predict_stage P (s\<lparr>cycle := cycle s + 1\<rparr>) (pipeline_regs s ! 1) []))
               \<lparr>stalls := stalls s + 1,
                pipeline_regs := (pipeline_regs s)
                  [4 := pipeline_regs s ! 3, 3 := pipeline_regs s ! 2, 2 := None]\<rparr>,
             AList.update (TagKey ''stall'' (cycle s + 1)) ''DATA_STALL''
               (snd (predict_stage P (s\<lparr>cycle := cycle s + 1\<rparr>) (pipeline_regs s ! 1) [])))
          else
            ((fst (predict_stage P (s\<lparr>cycle := cycle s + 1\<rparr>) (pipeline_regs s ! 1) []))
               \<lparr>pipeline_regs := (pipeline_regs s)
                  [4 := pipeline_regs s ! 3, 3 := pipeline_regs s ! 2,
                   2 := pipeline_regs s ! 1, 1 := pipeline_regs s ! 0, 0 := fetch_entry s],
                instr_queue := tl (instr_queue s)\<rparr>,
             snd (predict_stage P (s\<lparr>cycle := cycle s + 1\<rparr>) (pipeline_regs s ! 1) [])))"
proof -
  have ne: "pipeline_regs s \<noteq> []" using assms by auto
  show ?thesis
    using assms ne
    by (simp add: advance_stages_def Let_def predict_stage_frame shift_stall_ok shift_normal_ok
        fetch_ok fetch_entry_def split: list.splits)
qed

lemma snapshot_ok:
  "\<forall>i \<in> set js. i < length regs \<Longrightarrow> \<exists>ev'. snapshot h regs js ev = Inr ev'"
  by (induction js arbitrary: ev) simp_all

lemma snapshot_keys:
  "snapshot h regs js ev = Inr ev' \<Longrightarrow> \<forall>i. k \<noteq> StageKey i \<Longrightarrow> map_of ev' k = map_of ev k"
proof (induction js arbitrary: ev)
  case Nil
  then show ?case by simp
next
  case (Cons j js)
  then show ?case
    by (auto simp: bindE_eq_Inr update_conv')
qed

lemma squash_frame:
  "length (squash regs) = length regs"
  "2 \<le> i \<Longrightarrow> squash regs ! i = regs ! i"
  by (auto simp: squash_def Let_def)

lemma squash_slots:
  assumes "2 \<le> length regs"
  shows "squash regs ! 0 = None" and "squash regs ! 1 = None"
proof -
  have ne: "regs \<noteq> []" and one: "Suc 0 < length regs" using assms by auto
  show "squash regs ! 0 = None"
    using ne one by (cases "regs ! 0 = None") (auto simp: squash_def Let_def)
  show "squash regs ! 1 = None"
    using ne one by (cases "regs ! 1 = None") (auto simp: squash_def Let_def)
qed

lemma resolve_stage_frame:
  "stages (fst (resolve_stage P s ev)) = stages s"
  "instr_queue (fst (resolve_stage P s ev)) = instr_queue s"
  "cycle (fst (resolve_stage P s ev)) = cycle s"
  "stalls (fst (resolve_stage P s ev)) = stalls s"
  "timeline (fst (resolve_stage P s ev)) = timeline s"
  "length (pipeline_regs (fst (resolve_stage P s ev))) = length (pipeline_regs s)"
  "2 \<le> i \<Longrightarrow> pipeline_regs (fst (resolve_stage P s ev)) ! i = pipeline_regs s ! i"
  by (simp_all add: resolve_stage_def Let_def squash_frame split: option.splits)

lemma resolve_stage_empty:
  "pipeline_regs s ! 2 = None \<Longrightarrow> resolve_stage P s ev = (s, ev)"
  by (simp add: resolve_stage_def)

lemma step_Inr_length: "step P s = Inr s' \<Longrightarrow> 5 \<le> length (pipeline_regs s)"
  using step_err [of s P] by (cases "length (pipeline_regs s) < 5") simp_all

lemma step_frame:
  assumes "step P s = Inr s'"
  shows "stages s' = stages s" and "length (pipeline_regs s') = length (pipeline_regs s)"
    and "cycle s' = cycle s + 1" and "\<exists>ev. timeline s' = timeline s @ [ev]"
proof -
  have len: "5 \<le> length (pipeline_regs s)" using assms by (rule step_Inr_length)
  from assms obtain se ev where
    adv: "advance_stages P s = Inr se" and
    s': "s' = (fst (resolve_stage P (fst se) (snd se)))
           \<lparr>timeline := timeline (fst (resolve_stage P (fst se) (snd se))) @ [ev]\<rparr>"
    by (auto simp: step_def bindE_eq_Inr Let_def)
  have se: "stages (fst se) = stages s" "length (pipeline_regs (fst se)) = length (pipeline_regs s)"
    "cycle (fst se) = cycle s + 1" "timeline (fst se) = timeline s"
    using adv len by (auto simp: advance_stages_ok predict_stage_frame split: if_splits)
  show "stages s' = stages s" by (simp add: s' resolve_stage_frame se)
  show "length (pipeline_regs s') = length (pipeline_regs s)" by (simp add: s' resolve_stage_frame se)
  show "cycle s' = cycle s + 1" by (simp add: s' resolve_stage_frame se)
  show "\<exists>ev. timeline s' = timeline s @ [ev]" by (simp add: s' resolve_stage_frame se)
qed

lemma step_total:
  assumes "5 \<le> length (pipeline_regs s)" and "length (stages s) \<le> length (pipeline_regs s)"
  shows "\<exists>s'. step P s = Inr s'"
proof -
  obtain se where adv: "advance_stages P s = Inr se"
    using assms(1) by (simp add: advance_stages_ok)
  have se: "stages (fst se) = stages s" "length (pipeline_regs (fst se)) = length (pipeline_regs s)"
    using adv assms(1) by (auto simp: advance_stages_ok predict_stage_frame split: if_splits)
  let ?sr = "resolve_stage P (fst se) (snd se)"
  have "\<forall>i \<in> set [0..<length (stages (fst ?sr))]. i < length (pipeline_regs (fst ?sr))"
    using assms(2) by (simp add: resolve_stage_frame se)
  then obtain ev where "snapshot (heap (fst ?sr)) (pipeline_regs (fst ?sr))
      [0..<length (stages (fst ?sr))] (snd ?sr) = Inr ev"
    using snapshot_ok by blast
  then show ?thesis
    by (simp add: step_def adv Let_def)
qed

lemma step_decomp:
  assumes "step P s = Inr s'"
  obtains s2 ev2 s3 ev3 ev where
    "advance_stages P s = Inr (s2, ev2)" and "resolve_stage P s2 ev2 = (s3, ev3)" and
    "snapshot (heap s3) (pipeline_regs s3) [0..<length (stages s3)] ev3 = Inr ev" and
    "s' = s3\<lparr>timeline := timeline s3 @ [ev]\<rparr>"
proof -
  from assms obtain se ev where
    adv: "advance_stages P s = Inr se" and
    snap: "snapshot (heap (fst (resolve_stage P (fst se) (snd se))))
             (pipeline_regs (fst (resolve_stage P (fst se) (snd se))))
             [0..<length (stages (fst (resolve_stage P (fst se) (snd se))))]
             (snd (resolve_stage P (fst se) (snd se))) = Inr ev" and
    s': "s' = (fst (resolve_stage P (fst se) (snd se)))
           \<lparr>timeline := timeline (fst (resolve_stage P (fst se) (snd se))) @ [ev]\<rparr>"
    by (auto simp: step_def bindE_eq_Inr Let_def)
  show thesis
    by (rule that [of "fst se" "snd se" "fst (resolve_stage P (fst se) (snd se))"
          "snd (resolve_stage P (fst se) (snd se))" ev])
      (simp_all add: adv snap s')
qed

lemma step_compose:
  assumes "advance_stages P s = Inr (s2, ev2)" and "resolve_stage P s2 ev2 = (s3, ev3)"
    and "snapshot (heap s3) (pipeline_regs s3) [0..<length (stages s3)] ev3 = Inr ev"
  shows "step P s = Inr (s3\<lparr>timeline := timeline s3 @ [ev]\<rparr>)"
  using assms by (simp add: step_def Let_def)

lemma predict_stage_events:
  "map_of (snd (predict_stage P s i [])) (TagKey t n) = None"
  by (simp add: predict_stage_def split: option.splits)

lemma advance_stages_Inr_length:
  "advance_stages P s = Inr se \<Longrightarrow> 5 \<le> length (pipeline_regs s)"
  using advance_stages_err [of s P] by (cases "length (pipeline_regs s) < 5") simp_all

text \<open>The stall path of the stage shift.\<close>

lemma advance_stall:
  assumes "advance_stages P s = Inr (s2, ev2)"
    and "stall_needed (heap s) (pipeline_regs s ! 1) (pipeline_regs s ! 2)"
  shows "pipeline_regs s2 =
      (pipeline_regs s)[4 := pipeline_regs s ! 3, 3 := pipeline_regs s ! 2, 2 := None]"
    and "instr_queue s2 = instr_queue s" and "stalls s2 = stalls s + 1"
    and "flushed s2 = flushed s" and "cycle s2 = cycle s + 1" and "timeline s2 = timeline s"
    and "stages s2 = stages s"
    and "heap s2 = heap (fst (predict_stage P (s\<lparr>cycle := cycle s + 1\<rparr>) (pipeline_regs s ! 1) []))"
    and "branch_predictor s2 =
      branch_predictor (fst (predict_stage P (s\<lparr>cycle := cycle s + 1\<rparr>) (pipeline_regs s ! 1) []))"
    and "map_of ev2 (TagKey ''stall'' (cycle s + 1)) = Some ''DATA_STALL''"
    and "map_of ev2 (TagKey ''branch'' idx) = None"
proof -
  have len: "5 \<le> length (pipeline_regs s)"
    using assms(1) by (rule advance_stages_Inr_length)
  have s2: "s2 = (fst (predict_stage P (s\<lparr>cycle := cycle s + 1\<rparr>) (pipeline_regs s ! 1) []))
               \<lparr>stalls := stalls s + 1,
                pipeline_regs := (pipeline_regs s)
                  [4 := pipeline_regs s ! 3, 3 := pipeline_regs s ! 2, 2 := None]\<rparr>"
    and ev2: "ev2 = AList.update (TagKey ''stall'' (cycle s + 1)) ''DATA_STALL''
               (snd (predict_stage P (s\<lparr>cycle := cycle s + 1\<rparr>) (pipeline_regs s ! 1) []))"
    using assms by (simp_all add: advance_stages_ok [OF len])
  show "pipeline_regs s2 =
      (pipeline_regs s)[4 := pipeline_regs s ! 3, 3 := pipeline_regs s ! 2, 2 := None]"
    by (simp add: s2)
  show "instr_queue s2 = instr_queue s" by (simp add: s2 predict_stage_frame)
  show "stalls s2 = stalls s + 1" by (simp add: s2)
  show "flushed s2 = flushed s" by (simp add: s2 predict_stage_frame)
  show "cycle s2 = cycle s + 1" by (simp add: s2 predict_stage_frame)
  show "timeline s2 = timeline s" by (simp add: s2 predict_stage_frame)
  show "stages s2 = stages s" by (simp add: s2 predict_stage_frame)
  show "heap s2 = heap (fst (predict_stage P (s\<lparr>cycle := cycle s + 1\<rparr>) (pipeline_regs s ! 1) []))"
    by (simp add: s2)
  show "branch_predictor s2 =
      branch_predictor (fst (predict_stage P (s\<lparr>cycle := cycle s + 1\<rparr>) (pipeline_regs s ! 1) []))"
    by (simp add: s2)
  show "map_of ev2 (TagKey ''stall'' (cycle s + 1)) = Some ''DATA_STALL''"
    by (simp add: ev2 update_conv')
  show "map_of ev2 (TagKey ''branch'' idx) = None"
    by (simp add: ev2 update_conv' predict_stage_events)
qed

text \<open>The normal path of the stage shift.\<close>

lemma advance_normal:
  assumes "advance_stages P s = Inr (s2, ev2)"
    and "\<not> stall_needed (heap s) (pipeline_regs s ! 1) (pipeline_regs s ! 2)"
  shows "pipeline_regs s2 =
      (pipeline_regs s)[4 := pipeline_regs s ! 3, 3 := pipeline_regs s ! 2,
         2 := pipeline_regs s ! 1, 1 := pipeline_regs s ! 0, 0 := fetch_entry s]"
    and "instr_queue s2 = tl (instr_queue s)" and "stalls s2 = stalls s"
    and "flushed s2 = flushed s" and "cycle s2 = cycle s + 1" and "timeline s2 = timeline s"
    and "stages s2 = stages s"
    and "heap s2 = heap (fst (predict_stage P (s\<lparr>cycle := cycle s + 1\<rparr>) (pipeline_regs s ! 1) []))"
    and "branch_predictor s2 =
      branch_predictor (fst (predict_stage P (s\<lparr>cycle := cycle s + 1\<rparr>) (pipeline_regs s ! 1) []))"
    and "map_of ev2 (TagKey t n) = None"
proof -
  have len: "5 \<le> length (pipeline_regs s)"
    using assms(1) by (rule advance_stages_Inr_length)
  have s2: "s2 = (fst (predict_stage P (s\<lparr>cycle := cycle s + 1\<rparr>) (pipeline_regs s ! 1) []))
               \<lparr>pipeline_regs := (pipeline_regs s)
                  [4 := pipeline_regs s ! 3, 3 := pipeline_regs s ! 2,
                   2 := pipeline_regs s ! 1, 1 := pipeline_regs s ! 0, 0 := fetch_entry s],
                instr_queue := tl (instr_queue s)\<rparr>"
    and ev2: "ev2 = snd (predict_stage P (s\<lparr>cycle := cycle s + 1\<rparr>) (pipeline_regs s ! 1) [])"
    using assms by (simp_all add: advance_stages_ok [OF len])
  show "pipeline_regs s2 =
      (pipeline_regs s)[4 := pipeline_regs s ! 3, 3 := pipeline_regs s ! 2,
         2 := pipeline_regs s ! 1, 1 := pipeline_regs s ! 0, 0 := fetch_entry s]"
    by (simp add: s2)
  show "instr_queue s2 = tl (instr_queue s)" by (simp add: s2)
  show "stalls s2 = stalls s" by (simp add: s2 predict_stage_frame)
  show "flushed s2 = flushed s" by (simp add: s2 predict_stage_frame)
  show "cycle s2 = cycle s + 1" by (simp add: s2 predict_stage_frame)
  show "timeline s2 = timeline s" by (simp add: s2 predict_stage_frame)
  show "stages s2 = stages s" by (simp add: s2 predict_stage_frame)
  show "heap s2 = heap (fst (predict_stage P (s\<lparr>cycle := cycle s + 1\<rparr>) (pipeline_regs s ! 1) []))"
    by (simp add: s2)
  show "branch_predictor s2 =
      branch_predictor (fst (predict_stage P (s\<lparr>cycle := cycle s + 1\<rparr>) (pipeline_regs s ! 1) []))"
    by (simp add: s2)
  show "map_of ev2 (TagKey t n) = None"
    by (simp add: ev2 predict_stage_events)
qed

lemma resolve_mispredict:
  assumes "resolve_stage P s ev = (s3, ev3)" and "mispredicted P s"
  shows "flushed s3 = flushed s + 1" and "pipeline_regs s3 = squash (pipeline_regs s)"
    and "\<exists>e. pipeline_regs s ! 2 = Some e \<and>
           ev3 = AList.update (TagKey ''branch'' (fst e)) ''MISPREDICT'' ev"
  using assms
  by (auto simp: resolve_stage_def mispredicted_def Let_def split: option.splits if_splits)

lemma resolve_no_mispredict:
  assumes "resolve_stage P s ev = (s3, ev3)" and "\<not> mispredicted P s"
  shows "flushed s3 = flushed s" and "pipeline_regs s3 = pipeline_regs s"
    and "map_of ev3 (TagKey ''stall'' n) = map_of ev (TagKey ''stall'' n)"
    and "map_of ev3 k \<noteq> Some ''MISPREDICT'' \<or> map_of ev k = Some ''MISPREDICT''"
  using assms
  by (auto simp: resolve_stage_def mispredicted_def Let_def update_conv'
      split: option.splits if_splits)

lemma run_Suc_end: "run P (Suc n) s = bindE (run P n s) (step P)"
proof (induction n arbitrary: s)
  case 0
  show ?case by (cases "step P s") simp_all
next
  case (Suc n)
  show ?case
  proof (cases "step P s")
    case (Inl e)
    then show ?thesis by simp
  next
    case (Inr s1)
    have "run P (Suc (Suc n)) s = run P (Suc n) s1" using Inr by simp
    also have "\<dots> = bindE (run P n s1) (step P)" by (rule Suc.IH)
    also have "\<dots> = bindE (run P (Suc n) s) (step P)" using Inr by simp
    finally show ?thesis .
  qed
qed

lemma run_add: "run P (n + m) s = bindE (run P n s) (run P m)"
proof (induction n arbitrary: s)
  case 0
  show ?case by simp
next
  case (Suc n)
  show ?case by (cases "step P s") (simp_all add: Suc.IH)
qed

lemma run_frame:
  "run P n s0 = Inr s \<Longrightarrow>
   stages s = stages s0 \<and> length (pipeline_regs s) = length (pipeline_regs s0) \<and>
   cycle s = cycle s0 + n \<and> length (timeline s) = length (timeline s0) + n \<and>
   (\<exists>evs. timeline s = timeline s0 @ evs)"
proof (induction n arbitrary: s0)
  case 0
  then show ?case by simp
next
  case (Suc n)
  from Suc.prems obtain s1 where st: "step P s0 = Inr s1" and rn: "run P n s1 = Inr s"
    by (auto simp: bindE_eq_Inr)
  from step_frame [OF st] Suc.IH [OF rn] show ?case by auto
qed

lemma run_short:
  assumes "run P n s0 = Inr s" and "length (pipeline_regs s0) < 5"
  shows "n = 0" and "s = s0"
proof -
  show "n = 0"
  proof (cases n)
    case 0
    then show ?thesis .
  next
    case (Suc k)
    with assms show ?thesis by (simp add: step_err)
  qed
  with assms(1) show "s = s0" by simp
qed

lemma run_init_frame:
  assumes "run P n (Pipeline_init stgs prog bp h) = Inr s"
  shows "stages s = stgs" and "length (pipeline_regs s) = length stgs"
    and "cycle s = n" and "length (timeline s) = n"
  using run_frame [OF assms] by (simp_all add: Pipeline_init_def)

lemma run_init_occupied:
  assumes "run P n (Pipeline_init stgs prog bp h) = Inr s"
    and "list_get (pipeline_regs s) i = Inr (Some e)"
  shows "5 \<le> length (pipeline_regs s)"
proof (rule ccontr)
  assume "\<not> 5 \<le> length (pipeline_regs s)"
  then have "length (pipeline_regs (Pipeline_init stgs prog bp h)) < 5"
    using run_frame [OF assms(1)] by simp
  from run_short(2) [OF assms(1) this] have "pipeline_regs s = replicate (length stgs) None"
    by (simp add: Pipeline_init_def)
  with assms(2) show False
    by (simp add: list_get_def split: if_splits)
qed

lemma reads_hit_iff: "reads_hit rs ws \<longleftrightarrow> (\<exists>r \<in> set rs. truthy r \<and> r \<in> set ws)"
  by (induction rs) auto

lemma list_get_Inr: "list_get xs i = Inr x \<longleftrightarrow> i < length xs \<and> xs ! i = x"
  by (auto simp: list_get_def)

text \<open>A cycle that stalls.\<close>

lemma step_stall:
  assumes "step P s = Inr s'"
    and "stall_needed (heap s) (pipeline_regs s ! 1) (pipeline_regs s ! 2)"
  shows "pipeline_regs s' =
      (pipeline_regs s)[4 := pipeline_regs s ! 3, 3 := pipeline_regs s ! 2, 2 := None]"
    and "instr_queue s' = instr_queue s" and "stalls s' = stalls s + 1"
    and "flushed s' = flushed s"
    and "map_of (last (timeline s')) (TagKey ''stall'' (cycle s')) = Some ''DATA_STALL''"
    and "map_of (last (timeline s')) (TagKey ''branch'' idx) = None"
    and "heap s' = heap (fst (predict_stage P (s\<lparr>cycle := cycle s + 1\<rparr>) (pipeline_regs s ! 1) []))"
proof -
  from assms(1) obtain s2 ev2 s3 ev3 ev where
    adv: "advance_stages P s = Inr (s2, ev2)" and res: "resolve_stage P s2 ev2 = (s3, ev3)" and
    snap: "snapshot (heap s3) (pipeline_regs s3) [0..<length (stages s3)] ev3 = Inr ev" and
    s': "s' = s3\<lparr>timeline := timeline s3 @ [ev]\<rparr>"
    by (rule step_decomp)
  note a = advance_stall [OF adv assms(2)]
  have len: "5 \<le> length (pipeline_regs s)" using adv by (rule advance_stages_Inr_length)
  have "pipeline_regs s2 ! 2 = None" using len by (simp add: a(1))
  then have eq: "s3 = s2" "ev3 = ev2" using res by (simp_all add: resolve_stage_empty)
  show "pipeline_regs s' =
      (pipeline_regs s)[4 := pipeline_regs s ! 3, 3 := pipeline_regs s ! 2, 2 := None]"
    by (simp add: s' eq a)
  show "instr_queue s' = instr_queue s" by (simp add: s' eq a)
  show "stalls s' = stalls s + 1" by (simp add: s' eq a)
  show "flushed s' = flushed s" by (simp add: s' eq a)
  show "map_of (last (timeline s')) (TagKey ''stall'' (cycle s')) = Some ''DATA_STALL''"
    using snapshot_keys [OF snap, of "TagKey ''stall'' (cycle s + 1)"] a(10)
    by (simp add: s' eq a(5))
  show "map_of (last (timeline s')) (TagKey ''branch'' idx) = None"
    using snapshot_keys [OF snap, of "TagKey ''branch'' idx"] a(11) [of idx]
    by (simp add: s' eq)
  show "heap s' = heap (fst (predict_stage P (s\<lparr>cycle := cycle s + 1\<rparr>) (pipeline_regs s ! 1) []))"
    by (simp add: s' eq a)
qed

text \<open>A cycle records a stall event only on the stall path.\<close>

lemma step_stall_event:
  assumes "step P s = Inr s'"
    and "map_of (last (timeline s')) (TagKey ''stall'' n) = Some v"
  shows "stall_needed (heap s) (pipeline_regs s ! 1) (pipeline_regs s ! 2)"
proof (rule ccontr)
  assume ns: "\<not> stall_needed (heap s) (pipeline_regs s ! 1) (pipeline_regs s ! 2)"
  from assms(1) obtain s2 ev2 s3 ev3 ev where
    adv: "advance_stages P s = Inr (s2, ev2)" and res: "resolve_stage P s2 ev2 = (s3, ev3)" and
    snap: "snapshot (heap s3) (pipeline_regs s3) [0..<length (stages s3)] ev3 = Inr ev" and
    s': "s' = s3\<lparr>timeline := timeline s3 @ [ev]\<rparr>"
    by (rule step_decomp)
  have "map_of ev2 (TagKey ''stall'' n) = None"
    by (rule advance_normal(10) [OF adv ns])
  moreover have "map_of ev3 (TagKey ''stall'' n) = map_of ev2 (TagKey ''stall'' n)"
    using res by (auto simp: resolve_stage_def Let_def update_conv' split: option.splits if_splits)
  moreover have "map_of ev (TagKey ''stall'' n) = map_of ev3 (TagKey ''stall'' n)"
    using snapshot_keys [OF snap, of "TagKey ''stall'' n"] by simp
  ultimately show False using assms(2) by (simp add: s')
qed

text \<open>A cycle that does not stall.\<close>

lemma step_normal:
  assumes "step P s = Inr s'"
    and "\<not> stall_needed (heap s) (pipeline_regs s ! 1) (pipeline_regs s ! 2)"
  shows "instr_queue s' = tl (instr_queue s)" and "stalls s' = stalls s"
    and "pipeline_regs s' ! 4 = pipeline_regs s ! 3"
    and "pipeline_regs s' ! 3 = pipeline_regs s ! 2"
    and "pipeline_regs s' ! 2 = pipeline_regs s ! 1"
    and "5 \<le> i \<Longrightarrow> pipeline_regs s' ! i = pipeline_regs s ! i"
    and "(pipeline_regs s' ! 1 = pipeline_regs s ! 0 \<and> pipeline_regs s' ! 0 = fetch_entry s \<and>
          flushed s' = flushed s) \<or>
         (pipeline_regs s' ! 1 = None \<and> pipeline_regs s' ! 0 = None \<and>
          flushed s' = flushed s + 1)"
proof -
  from assms(1) obtain s2 ev2 s3 ev3 ev where
    adv: "advance_stages P s = Inr (s2, ev2)" and res: "resolve_stage P s2 ev2 = (s3, ev3)" and
    snap: "snapshot (heap s3) (pipeline_regs s3) [0..<length (stages s3)] ev3 = Inr ev" and
    s': "s' = s3\<lparr>timeline := timeline s3 @ [ev]\<rparr>"
    by (rule step_decomp)
  note a = advance_normal [OF adv assms(2)]
  have len: "5 \<le> length (pipeline_regs s)" using adv by (rule advance_stages_Inr_length)
  then have ne: "pipeline_regs s \<noteq> []" by auto
  have s3: "s3 = fst (resolve_stage P s2 ev2)" using res by simp
  have r2: "pipeline_regs s2 ! 4 = pipeline_regs s ! 3" "pipeline_regs s2 ! 3 = pipeline_regs s ! 2"
    "pipeline_regs s2 ! 2 = pipeline_regs s ! 1" "pipeline_regs s2 ! 1 = pipeline_regs s ! 0"
    "pipeline_regs s2 ! 0 = fetch_entry s" "length (pipeline_regs s2) = length (pipeline_regs s)"
    using len ne by (simp_all add: a(1))
  show "instr_queue s' = tl (instr_queue s)" by (simp add: s' s3 resolve_stage_frame a)
  show "stalls s' = stalls s" by (simp add: s' s3 resolve_stage_frame a)
  show "pipeline_regs s' ! 4 = pipeline_regs s ! 3" by (simp add: s' s3 resolve_stage_frame r2)
  show "pipeline_regs s' ! 3 = pipeline_regs s ! 2" by (simp add: s' s3 resolve_stage_frame r2)
  show "pipeline_regs s' ! 2 = pipeline_regs s ! 1" by (simp add: s' s3 resolve_stage_frame r2)
  show "pipeline_regs s' ! i = pipeline_regs s ! i" if "5 \<le> i"
    using that by (simp add: s' s3 resolve_stage_frame a(1))
  show "(pipeline_regs s' ! 1 = pipeline_regs s ! 0 \<and> pipeline_regs s' ! 0 = fetch_entry s \<and>
          flushed s' = flushed s) \<or>
         (pipeline_regs s' ! 1 = None \<and> pipeline_regs s' ! 0 = None \<and>
          flushed s' = flushed s + 1)"
  proof (cases "mispredicted P s2")
    case True
    have "2 \<le> length (pipeline_regs s2)" using len r2(6) by simp
    from resolve_mispredict(1,2) [OF res True] squash_slots [OF this]
    show ?thesis by (simp add: s' a(4))
  next
    case False
    have "flushed s3 = flushed s2" and "pipeline_regs s3 = pipeline_regs s2"
      by (rule resolve_no_mispredict(1,2) [OF res False])+
    then show ?thesis using r2 by (simp add: s' a(4))
  qed
qed

lemma step_high_slots:
  assumes "step P s = Inr s'" and "5 \<le> i"
  shows "pipeline_regs s' ! i = pipeline_regs s ! i"
proof (cases "stall_needed (heap s) (pipeline_regs s ! 1) (pipeline_regs s ! 2)")
  case True
  from step_stall(1) [OF assms(1) True] assms(2) show ?thesis by simp
next
  case False
  from step_normal(6) [OF assms(1) False assms(2)] show ?thesis .
qed

lemma run_high_slots:
  "run P n s0 = Inr s \<Longrightarrow> 5 \<le> i \<Longrightarrow> pipeline_regs s ! i = pipeline_regs s0 ! i"
proof (induction n arbitrary: s0)
  case 0
  then show ?case by simp
next
  case (Suc n)
  from Suc.prems(1) obtain s1 where st: "step P s0 = Inr s1" and rn: "run P n s1 = Inr s"
    by (auto simp: bindE_eq_Inr)
  from Suc.IH [OF rn Suc.prems(2)] step_high_slots [OF st Suc.prems(2)] show ?case by simp
qed

lemma sample_run3:
  "run simple_predictor 3 sample_engine = Inr (state_after simple_predictor 3 sample_engine)"
  by (simp add: engine_eval)

lemma sample_state3:
  "pipeline_regs (state_after simple_predictor 3 sample_engine) =
     [Some (2, 2), Some (1, 1), Some (0, 0), None, None]"
  "heap (state_after simple_predictor 3 sample_engine) = objects_of sample_program"
  "stalls (state_after simple_predictor 3 sample_engine) = 0"
  "instr_queue (state_after simple_predictor 3 sample_engine) = [3, 4]"
  by (simp_all add: engine_eval)




lemma sample_step3:
  "step simple_predictor (state_after simple_predictor 3 sample_engine) =
     Inr (state_after simple_predictor 4 sample_engine)"
  by (simp add: engine_eval)

lemma sample_state4:
  "timeline (state_after simple_predictor 4 sample_engine) ! 3 =
     [(TagKey ''stall'' 4, ''DATA_STALL''), (StageKey 0, ''I3: BEQ R2,0 -> LABEL''),
      (StageKey 1, ''I2: ADD R2,R1''), (StageKey 2, []), (StageKey 3, ''I1: LOAD R1''),
      (StageKey 4, [])]"
  "length (timeline (state_after simple_predictor 4 sample_engine)) = 4"
  "flushed (state_after simple_predictor 4 sample_engine) = 0"
  "pipeline_regs (state_after simple_predictor 4 sample_engine) =
     [Some (2, 2), Some (1, 1), None, Some (0, 0), None]"
  by (simp_all add: engine_eval)

lemma sample_last4:
  "last (timeline (state_after simple_predictor 4 sample_engine)) =
     [(TagKey ''stall'' 4, ''DATA_STALL''), (StageKey 0, ''I3: BEQ R2,0 -> LABEL''),
      (StageKey 1, ''I2: ADD R2,R1''), (StageKey 2, []), (StageKey 3, ''I1: LOAD R1''),
      (StageKey 4, [])]"
  by (simp add: engine_eval)

text \<open>
  Claim C3, as the code has it. No call of \<open>step\<close> records a stall event and a
  branch outcome together: on the stall path slot 2 is emptied before branch resolution
  looks at it, so a cycle whose record holds a stall event holds no branch event
  (neither a misprediction nor a correct prediction), leaves the flush counter as it
  was and ends with slot 2 empty.
\<close>

theorem stall_excludes_branch_event:
  assumes "step P s = Inr s'"
    and "map_of (last (timeline s')) (TagKey ''stall'' n) = Some v"
  shows "map_of (last (timeline s')) (TagKey ''branch'' idx) = None \<and>
         flushed s' = flushed s \<and> list_get (pipeline_regs s') 2 = Inr None"
proof -
  have stall: "stall_needed (heap s) (pipeline_regs s ! 1) (pipeline_regs s ! 2)"
    using assms by (rule step_stall_event)
  have len: "5 \<le> length (pipeline_regs s)" using assms(1) by (rule step_Inr_length)
  note f = step_stall [OF assms(1) stall]
  have "list_get (pipeline_regs s') 2 = Inr None"
    using len by (simp add: f(1))
  with f(4) f(6) [of idx] show ?thesis by simp
qed

theorem stall_excludes_branch_event_witness:
  "step simple_predictor (state_after simple_predictor 3 sample_engine) =
     Inr (state_after simple_predictor 4 sample_engine) \<and>
   map_of (last (timeline (state_after simple_predictor 4 sample_engine))) (TagKey ''stall'' 4) =
     Some ''DATA_STALL'' \<and>
   map_of (last (timeline (state_after simple_predictor 4 sample_engine))) (TagKey ''branch'' 2) =
     None \<and>
   flushed (state_after simple_predictor 4 sample_engine) = 0 \<and>
   list_get (pipeline_regs (state_after simple_predictor 4 sample_engine)) 2 = Inr None"
proof -
  have h2: "map_of (last (timeline (state_after simple_predictor 4 sample_engine)))
      (TagKey ''stall'' 4) = Some ''DATA_STALL''"
    by (simp add: sample_last4)
  have "flushed (state_after simple_predictor 3 sample_engine) = 0"
    by (simp add: engine_eval)
  with stall_excludes_branch_event [OF sample_step3 h2, of 2] sample_step3 h2
  show ?thesis by simp
qed

theorem stall_and_misprediction_counterexample:
  "\<not> (\<exists>(P :: 'p predictor) s s' n idx.
        step P s = Inr s' \<and>
        map_of (last (timeline s')) (TagKey ''stall'' n) = Some ''DATA_STALL'' \<and>
        map_of (last (timeline s')) (TagKey ''branch'' idx) = Some ''MISPREDICT'')"
proof
  assume "\<exists>(P :: 'p predictor) s s' n idx.
        step P s = Inr s' \<and>
        map_of (last (timeline s')) (TagKey ''stall'' n) = Some ''DATA_STALL'' \<and>
        map_of (last (timeline s')) (TagKey ''branch'' idx) = Some ''MISPREDICT''"
  then obtain P :: "'p predictor" and s s' n idx where
    st: "step P s = Inr s'" and
    stl: "map_of (last (timeline s')) (TagKey ''stall'' n) = Some ''DATA_STALL''" and
    br: "map_of (last (timeline s')) (TagKey ''branch'' idx) = Some ''MISPREDICT''"
    by blast
  have "stall_needed (heap s) (pipeline_regs s ! 1) (pipeline_regs s ! 2)"
    using st stl by (rule step_stall_event)
  from step_stall(6) [OF st this, of idx] br show False by simp
qed

lemma resolve_flush_slot2:
  assumes "resolve_stage P s ev = (s3, ev3)" and "flushed s3 \<noteq> flushed s"
  shows "\<exists>e. pipeline_regs s ! 2 = Some e \<and> is_branch (heap s3 (snd e)) \<and>
           predicted_taken (heap s3 (snd e)) \<noteq> actual_taken (heap s3 (snd e))"
  using assms
  by (auto simp: resolve_stage_def Let_def split: option.splits if_splits)

lemma advance_flushed:
  assumes "advance_stages P s = Inr (s2, ev2)"
  shows "flushed s2 = flushed s"
proof (cases "stall_needed (heap s) (pipeline_regs s ! 1) (pipeline_regs s ! 2)")
  case True
  from advance_stall(4) [OF assms True] show ?thesis .
next
  case False
  from advance_normal(4) [OF assms False] show ?thesis .
qed

lemma step_flush_slot2:
  assumes "step P s = Inr s'" and "flushed s' \<noteq> flushed s"
  shows "\<exists>e. pipeline_regs s' ! 2 = Some e \<and> is_branch (heap s' (snd e)) \<and>
           predicted_taken (heap s' (snd e)) \<noteq> actual_taken (heap s' (snd e))"
proof -
  from assms(1) obtain s2 ev2 s3 ev3 ev where
    adv: "advance_stages P s = Inr (s2, ev2)" and res: "resolve_stage P s2 ev2 = (s3, ev3)" and
    s': "s' = s3\<lparr>timeline := timeline s3 @ [ev]\<rparr>"
    by (rule step_decomp)
  have "flushed s3 \<noteq> flushed s2"
    using assms(2) advance_flushed [OF adv] by (simp add: s')
  from resolve_flush_slot2 [OF res this] obtain e where
    e: "pipeline_regs s2 ! 2 = Some e" "is_branch (heap s3 (snd e))"
    "predicted_taken (heap s3 (snd e)) \<noteq> actual_taken (heap s3 (snd e))"
    by blast
  have "pipeline_regs s3 ! 2 = pipeline_regs s2 ! 2"
    using resolve_stage_frame(7) [of 2 P s2 ev2] res by simp
  with e show ?thesis by (simp add: s')
qed

lemma step_stalls_iff:
  assumes "step P s = Inr s'"
  shows "(stalls s' = stalls s + 1) = stall_needed (heap s) (pipeline_regs s ! 1) (pipeline_regs s ! 2)"
proof (cases "stall_needed (heap s) (pipeline_regs s ! 1) (pipeline_regs s ! 2)")
  case True
  from step_stall(3) [OF assms True] True show ?thesis by simp
next
  case False
  from step_normal(2) [OF assms False] False show ?thesis by simp
qed

lemma step_back_slots:
  assumes "step P s = Inr s'"
  shows "pipeline_regs s' ! 4 = pipeline_regs s ! 3"
    and "pipeline_regs s' ! 3 = pipeline_regs s ! 2"
    and "pipeline_regs s' ! 2 =
      (if stall_needed (heap s) (pipeline_regs s ! 1) (pipeline_regs s ! 2) then None
       else pipeline_regs s ! 1)"
proof -
  have len: "5 \<le> length (pipeline_regs s)" using assms by (rule step_Inr_length)
  show "pipeline_regs s' ! 4 = pipeline_regs s ! 3"
  proof (cases "stall_needed (heap s) (pipeline_regs s ! 1) (pipeline_regs s ! 2)")
    case True
    from step_stall(1) [OF assms True] len show ?thesis by simp
  next
    case False
    from step_normal(3) [OF assms False] show ?thesis .
  qed
  show "pipeline_regs s' ! 3 = pipeline_regs s ! 2"
  proof (cases "stall_needed (heap s) (pipeline_regs s ! 1) (pipeline_regs s ! 2)")
    case True
    from step_stall(1) [OF assms True] len show ?thesis by simp
  next
    case False
    from step_normal(4) [OF assms False] show ?thesis .
  qed
  show "pipeline_regs s' ! 2 =
      (if stall_needed (heap s) (pipeline_regs s ! 1) (pipeline_regs s ! 2) then None
       else pipeline_regs s ! 1)"
  proof (cases "stall_needed (heap s) (pipeline_regs s ! 1) (pipeline_regs s ! 2)")
    case True
    from step_stall(1) [OF assms True] len True show ?thesis by simp
  next
    case False
    from step_normal(5) [OF assms False] False show ?thesis by simp
  qed
qed

lemma run_init_high_slots:
  assumes "run P n (Pipeline_init stgs prog bp h) = Inr s" and "5 \<le> i" and "i < length stgs"
  shows "pipeline_regs s ! i = None"
  using run_high_slots [OF assms(1,2)] assms(3) by (simp add: Pipeline_init_def)




text \<open>
  Claim C9, as the code has it. The constructor never fails, whatever the length of the
  stage list: it returns an engine with one empty slot for each stage name, cycle 0 and
  the whole program as its backlog. A stage list shorter than five names (so also one
  shorter than three) is found out only by the first call of \<open>step\<close>, which raises
  IndexError.
\<close>

theorem constructor_accepts_any_stage_list:
  "Pipeline_new stgs prog bp h = Inr (Pipeline_init stgs prog bp h) \<and>
   pipeline_regs (Pipeline_init stgs prog bp h) = replicate (length stgs) None \<and>
   instr_queue (Pipeline_init stgs prog bp h) = prog \<and>
   cycle (Pipeline_init stgs prog bp h) = 0 \<and>
   (length stgs < 5 \<longrightarrow> step P (Pipeline_init stgs prog bp h) = Inl IndexError)"
  by (simp add: Pipeline_new_def Pipeline_init_def step_err)

theorem constructor_accepts_any_stage_list_witness:
  "length [''IF'', ''ID''] < (5::nat) \<and>
   two_stage_engine =
     Inr (Pipeline_init [''IF'', ''ID''] [0, 1, 2, 3, 4] not_taken_resolved_taken
       (objects_of sample_program)) \<and>
   step simple_predictor (Pipeline_init [''IF'', ''ID''] [0, 1, 2, 3, 4] not_taken_resolved_taken
       (objects_of sample_program)) = Inl IndexError"
proof -
  have two: "length [''IF'', ''ID''] < (5::nat)" by simp
  note c = constructor_accepts_any_stage_list [of "[''IF'', ''ID'']" "[0, 1, 2, 3, 4]"
      not_taken_resolved_taken "objects_of sample_program" simple_predictor]
  have a: "two_stage_engine =
     Inr (Pipeline_init [''IF'', ''ID''] [0, 1, 2, 3, 4] not_taken_resolved_taken
       (objects_of sample_program))"
    unfolding two_stage_engine_def by (rule c [THEN conjunct1])
  have b: "step simple_predictor (Pipeline_init [''IF'', ''ID''] [0, 1, 2, 3, 4]
      not_taken_resolved_taken (objects_of sample_program)) = Inl IndexError"
    using c two by blast
  show ?thesis using two a b by (intro conjI)
qed

theorem short_stage_list_constructed_counterexample:
  "(case two_stage_engine of
      Inl err \<Rightarrow> False
    | Inr s \<Rightarrow> stages s = [''IF'', ''ID''] \<and> pipeline_regs s = [None, None] \<and>
        instr_queue s = [0, 1, 2, 3, 4] \<and> cycle s = 0)"
  by (simp add: two_stage_engine_def Pipeline_new_def Pipeline_init_def)

lemma advance_stages_total:
  "5 \<le> length (pipeline_regs s) \<Longrightarrow> \<exists>s2 ev2. advance_stages P s = Inr (s2, ev2)"
  by (simp add: advance_stages_ok)

lemma fetch_entry_nonempty:
  "instr_queue s \<noteq> [] \<Longrightarrow> fetch_entry s = Some (length (timeline s), hd (instr_queue s))"
  by (cases "instr_queue s") (simp_all add: fetch_entry_def)

lemma advance_fetch_slot:
  assumes "advance_stages P s = Inr (s2, ev2)"
    and "\<not> stall_needed (heap s) (pipeline_regs s ! 1) (pipeline_regs s ! 2)"
  shows "pipeline_regs s2 ! 0 = fetch_entry s"
proof -
  have "5 \<le> length (pipeline_regs s)" using assms(1) by (rule advance_stages_Inr_length)
  then have "pipeline_regs s \<noteq> []" by auto
  then show ?thesis by (simp add: advance_normal(1) [OF assms])
qed


lemma sample_run2:
  "run simple_predictor 2 sample_engine = Inr (state_after simple_predictor 2 sample_engine)"
  by (simp add: engine_eval)

lemma sample_state2:
  "pipeline_regs (state_after simple_predictor 2 sample_engine) =
     [Some (1, 1), Some (0, 0), None, None, None]"
  "instr_queue (state_after simple_predictor 2 sample_engine) = [2, 3, 4]"
  "cycle (state_after simple_predictor 2 sample_engine) = 2"
  "length (timeline (state_after simple_predictor 2 sample_engine)) = 2"
  by (simp_all add: engine_eval)

lemma sample_step2:
  "step simple_predictor (state_after simple_predictor 2 sample_engine) =
     Inr (state_after simple_predictor 3 sample_engine)"
  by (simp add: engine_eval)


lemma step_queue:
  assumes "step P s = Inr s'"
  shows "\<exists>k. instr_queue s' = drop k (instr_queue s)"
proof (cases "stall_needed (heap s) (pipeline_regs s ! 1) (pipeline_regs s ! 2)")
  case True
  from step_stall(2) [OF assms True] have "instr_queue s' = drop 0 (instr_queue s)" by simp
  then show ?thesis ..
next
  case False
  from step_normal(1) [OF assms False] have "instr_queue s' = drop 1 (instr_queue s)"
    by (simp add: drop_Suc)
  then show ?thesis ..
qed

lemma run_queue:
  "run P n s = Inr s' \<Longrightarrow> \<exists>k. instr_queue s' = drop k (instr_queue s)"
proof (induction n arbitrary: s)
  case 0
  then have "instr_queue s' = drop 0 (instr_queue s)" by simp
  then show ?case ..
next
  case (Suc n)
  from Suc.prems obtain s1 where st: "step P s = Inr s1" and rn: "run P n s1 = Inr s'"
    by (auto simp: bindE_eq_Inr)
  from step_queue [OF st] obtain j where j: "instr_queue s1 = drop j (instr_queue s)" ..
  from Suc.IH [OF rn] obtain k where k: "instr_queue s' = drop k (instr_queue s1)" ..
  have "instr_queue s' = drop (k + j) (instr_queue s)" by (simp add: j k)
  then show ?case ..
qed


lemma branch_advance2:
  "advance_stages simple_predictor (state_after simple_predictor 2 branch_engine) =
     Inr (fst (advanced simple_predictor (state_after simple_predictor 2 branch_engine)),
          snd (advanced simple_predictor (state_after simple_predictor 2 branch_engine)))"
  by (simp add: advanced_def branch_engine_def engine_eval)

lemma branch_advanced2:
  "pipeline_regs (fst (advanced simple_predictor (state_after simple_predictor 2 branch_engine))) =
     [Some (2, 4), Some (1, 3), Some (0, 2), None, None]"
  "is_branch (heap (fst (advanced simple_predictor (state_after simple_predictor 2 branch_engine))) 2)"
  "predicted_taken
     (heap (fst (advanced simple_predictor (state_after simple_predictor 2 branch_engine))) 2) =
     Some False"
  "fst (actual_outcome simple_predictor
     (branch_predictor (fst (advanced simple_predictor (state_after simple_predictor 2 branch_engine))))
     (heap (fst (advanced simple_predictor (state_after simple_predictor 2 branch_engine))) 2))"
  by (simp_all add: advanced_def branch_engine_def engine_eval)

lemma branch_step2:
  "step simple_predictor (state_after simple_predictor 2 branch_engine) =
     Inr (state_after simple_predictor 3 branch_engine)"
  by (simp add: branch_engine_def engine_eval)

lemma branch_state2:
  "flushed (state_after simple_predictor 2 branch_engine) = 0"
  "instr_queue (state_after simple_predictor 2 branch_engine) = [4]"
  by (simp_all add: branch_engine_def engine_eval)


lemma deterministic_onD:
  assumes "deterministic_on I P f g" and "I p"
  shows "fst (predict P p i) = f i" and "fst (actual_outcome P p i) = g i"
    and "I (snd (predict P p i))" and "I (snd (actual_outcome P p i))"
  using assms by (simp_all add: deterministic_on_def)

lemma predict_stage_det:
  assumes v: "same_view s t"
    and d1: "deterministic_on I1 P1 f g" and d2: "deterministic_on I2 P2 f g"
    and i1: "I1 (branch_predictor s)" and i2: "I2 (branch_predictor t)"
  shows "same_view (fst (predict_stage P1 s i ev)) (fst (predict_stage P2 t i ev))"
    and "snd (predict_stage P1 s i ev) = snd (predict_stage P2 t i ev)"
    and "I1 (branch_predictor (fst (predict_stage P1 s i ev)))"
    and "I2 (branch_predictor (fst (predict_stage P2 t i ev)))"
proof -
  have h: "heap s = heap t" using v by (simp add: same_view_def)
  note a = deterministic_onD [OF d1 i1] deterministic_onD [OF d2 i2]
  show "same_view (fst (predict_stage P1 s i ev)) (fst (predict_stage P2 t i ev))"
    using v by (cases i) (simp_all add: predict_stage_def same_view_def a)
  show "snd (predict_stage P1 s i ev) = snd (predict_stage P2 t i ev)"
    by (cases i) (simp_all add: predict_stage_def h a)
  show "I1 (branch_predictor (fst (predict_stage P1 s i ev)))"
    using i1 by (cases i) (simp_all add: predict_stage_def a)
  show "I2 (branch_predictor (fst (predict_stage P2 t i ev)))"
    using i2 by (cases i) (simp_all add: predict_stage_def a)
qed

lemma resolve_stage_det:
  assumes v: "same_view s t"
    and d1: "deterministic_on I1 P1 f g" and d2: "deterministic_on I2 P2 f g"
    and i1: "I1 (branch_predictor s)" and i2: "I2 (branch_predictor t)"
  shows "same_view (fst (resolve_stage P1 s ev)) (fst (resolve_stage P2 t ev))"
    and "snd (resolve_stage P1 s ev) = snd (resolve_stage P2 t ev)"
    and "I1 (branch_predictor (fst (resolve_stage P1 s ev)))"
    and "I2 (branch_predictor (fst (resolve_stage P2 t ev)))"
proof -
  have h: "heap s = heap t" and r: "pipeline_regs s = pipeline_regs t"
    using v by (simp_all add: same_view_def)
  note a = deterministic_onD [OF d1 i1] deterministic_onD [OF d2 i2]
  show "same_view (fst (resolve_stage P1 s ev)) (fst (resolve_stage P2 t ev))"
    using v by (cases "pipeline_regs t ! 2") (simp_all add: resolve_stage_def same_view_def a Let_def)
  show "snd (resolve_stage P1 s ev) = snd (resolve_stage P2 t ev)"
    by (cases "pipeline_regs t ! 2") (simp_all add: resolve_stage_def h r a Let_def)
  show "I1 (branch_predictor (fst (resolve_stage P1 s ev)))"
    using i1 by (cases "pipeline_regs s ! 2") (simp_all add: resolve_stage_def a Let_def)
  show "I2 (branch_predictor (fst (resolve_stage P2 t ev)))"
    using i2 by (cases "pipeline_regs t ! 2") (simp_all add: resolve_stage_def a Let_def)
qed

lemma advance_stages_det:
  assumes v: "same_view s t"
    and d1: "deterministic_on I1 P1 f g" and d2: "deterministic_on I2 P2 f g"
    and i1: "I1 (branch_predictor s)" and i2: "I2 (branch_predictor t)"
  shows "(advance_stages P1 s = Inl IndexError \<and> advance_stages P2 t = Inl IndexError) \<or>
         (\<exists>s2 t2 ev2. advance_stages P1 s = Inr (s2, ev2) \<and> advance_stages P2 t = Inr (t2, ev2) \<and>
            same_view s2 t2 \<and> I1 (branch_predictor s2) \<and> I2 (branch_predictor t2))"
proof (cases "length (pipeline_regs t) < 5")
  case True
  moreover have "pipeline_regs s = pipeline_regs t" using v by (simp add: same_view_def)
  ultimately show ?thesis by (simp add: advance_stages_err)
next
  case False
  have r: "pipeline_regs s = pipeline_regs t" and h: "heap s = heap t"
    and c: "cycle s = cycle t" and st: "stalls s = stalls t"
    and q: "instr_queue s = instr_queue t" and tl: "timeline s = timeline t"
    using v by (simp_all add: same_view_def)
  have lt: "5 \<le> length (pipeline_regs t)" using False by simp
  then have ls: "5 \<le> length (pipeline_regs s)" by (simp add: r)
  let ?ps = "predict_stage P1 (s\<lparr>cycle := cycle s + 1\<rparr>) (pipeline_regs s ! 1) []"
  let ?pt = "predict_stage P2 (t\<lparr>cycle := cycle t + 1\<rparr>) (pipeline_regs t ! 1) []"
  have v': "same_view (s\<lparr>cycle := cycle s + 1\<rparr>) (t\<lparr>cycle := cycle t + 1\<rparr>)"
    using v by (simp add: same_view_def)
  have j1: "I1 (branch_predictor (s\<lparr>cycle := cycle s + 1\<rparr>))" using i1 by simp
  have j2: "I2 (branch_predictor (t\<lparr>cycle := cycle t + 1\<rparr>))" using i2 by simp
  note p = predict_stage_det [OF v' d1 d2 j1 j2, of "pipeline_regs t ! 1" "[]"]
  have pv: "same_view (fst ?ps) (fst ?pt)" and pe: "snd ?ps = snd ?pt"
    and p1: "I1 (branch_predictor (fst ?ps))" and p2: "I2 (branch_predictor (fst ?pt))"
    using p by (simp_all add: r)
  have fe: "fetch_entry s = fetch_entry t" by (simp add: fetch_entry_def q tl split: list.splits)
  show ?thesis
  proof (cases "stall_needed (heap t) (pipeline_regs t ! 1) (pipeline_regs t ! 2)")
    case True
    have a1: "advance_stages P1 s = Inr ((fst ?ps)\<lparr>stalls := stalls s + 1,
        pipeline_regs := (pipeline_regs s)
          [4 := pipeline_regs s ! 3, 3 := pipeline_regs s ! 2, 2 := None]\<rparr>,
        AList.update (TagKey ''stall'' (cycle s + 1)) ''DATA_STALL'' (snd ?ps))"
      using True by (simp add: advance_stages_ok [OF ls] h r)
    have a2: "advance_stages P2 t = Inr ((fst ?pt)\<lparr>stalls := stalls t + 1,
        pipeline_regs := (pipeline_regs t)
          [4 := pipeline_regs t ! 3, 3 := pipeline_regs t ! 2, 2 := None]\<rparr>,
        AList.update (TagKey ''stall'' (cycle s + 1)) ''DATA_STALL'' (snd ?ps))"
      using True pe c r by (simp add: advance_stages_ok [OF lt])
    have sv: "same_view ((fst ?ps)\<lparr>stalls := stalls s + 1,
        pipeline_regs := (pipeline_regs s)
          [4 := pipeline_regs s ! 3, 3 := pipeline_regs s ! 2, 2 := None]\<rparr>)
        ((fst ?pt)\<lparr>stalls := stalls t + 1,
        pipeline_regs := (pipeline_regs t)
          [4 := pipeline_regs t ! 3, 3 := pipeline_regs t ! 2, 2 := None]\<rparr>)"
      using pv by (simp add: same_view_def r st)
    have q1: "I1 (branch_predictor ((fst ?ps)\<lparr>stalls := stalls s + 1,
        pipeline_regs := (pipeline_regs s)
          [4 := pipeline_regs s ! 3, 3 := pipeline_regs s ! 2, 2 := None]\<rparr>))"
      using p1 by simp
    have q2: "I2 (branch_predictor ((fst ?pt)\<lparr>stalls := stalls t + 1,
        pipeline_regs := (pipeline_regs t)
          [4 := pipeline_regs t ! 3, 3 := pipeline_regs t ! 2, 2 := None]\<rparr>))"
      using p2 by simp
    show ?thesis
      by (intro disjI2 exI conjI, rule a1, rule a2, rule sv, rule q1, rule q2)
  next
    case False
    have a1: "advance_stages P1 s = Inr ((fst ?ps)\<lparr>pipeline_regs := (pipeline_regs s)
          [4 := pipeline_regs s ! 3, 3 := pipeline_regs s ! 2,
           2 := pipeline_regs s ! 1, 1 := pipeline_regs s ! 0, 0 := fetch_entry s],
        instr_queue := tl (instr_queue s)\<rparr>, snd ?ps)"
      using False by (simp add: advance_stages_ok [OF ls] h r)
    have a2: "advance_stages P2 t = Inr ((fst ?pt)\<lparr>pipeline_regs := (pipeline_regs t)
          [4 := pipeline_regs t ! 3, 3 := pipeline_regs t ! 2,
           2 := pipeline_regs t ! 1, 1 := pipeline_regs t ! 0, 0 := fetch_entry t],
        instr_queue := tl (instr_queue t)\<rparr>, snd ?ps)"
      using False pe c r by (simp add: advance_stages_ok [OF lt])
    have sv: "same_view ((fst ?ps)\<lparr>pipeline_regs := (pipeline_regs s)
          [4 := pipeline_regs s ! 3, 3 := pipeline_regs s ! 2,
           2 := pipeline_regs s ! 1, 1 := pipeline_regs s ! 0, 0 := fetch_entry s],
        instr_queue := tl (instr_queue s)\<rparr>)
        ((fst ?pt)\<lparr>pipeline_regs := (pipeline_regs t)
          [4 := pipeline_regs t ! 3, 3 := pipeline_regs t ! 2,
           2 := pipeline_regs t ! 1, 1 := pipeline_regs t ! 0, 0 := fetch_entry t],
        instr_queue := tl (instr_queue t)\<rparr>)"
      using pv by (simp add: same_view_def r q fe)
    have q1: "I1 (branch_predictor ((fst ?ps)\<lparr>pipeline_regs := (pipeline_regs s)
          [4 := pipeline_regs s ! 3, 3 := pipeline_regs s ! 2,
           2 := pipeline_regs s ! 1, 1 := pipeline_regs s ! 0, 0 := fetch_entry s],
        instr_queue := tl (instr_queue s)\<rparr>))"
      using p1 by simp
    have q2: "I2 (branch_predictor ((fst ?pt)\<lparr>pipeline_regs := (pipeline_regs t)
          [4 := pipeline_regs t ! 3, 3 := pipeline_regs t ! 2,
           2 := pipeline_regs t ! 1, 1 := pipeline_regs t ! 0, 0 := fetch_entry t],
        instr_queue := tl (instr_queue t)\<rparr>))"
      using p2 by simp
    show ?thesis
      by (intro disjI2 exI conjI, rule a1, rule a2, rule sv, rule q1, rule q2)
  qed
qed

lemma step_det:
  assumes v: "same_view s t"
    and d1: "deterministic_on I1 P1 f g" and d2: "deterministic_on I2 P2 f g"
    and i1: "I1 (branch_predictor s)" and i2: "I2 (branch_predictor t)"
  shows "(step P1 s = Inl IndexError \<and> step P2 t = Inl IndexError) \<or>
         (\<exists>s' t'. step P1 s = Inr s' \<and> step P2 t = Inr t' \<and>
            same_view s' t' \<and> I1 (branch_predictor s') \<and> I2 (branch_predictor t'))"
proof -
  from advance_stages_det [OF v d1 d2 i1 i2]
  consider (err) "advance_stages P1 s = Inl IndexError" "advance_stages P2 t = Inl IndexError"
    | (ok) s2 t2 ev2 where "advance_stages P1 s = Inr (s2, ev2)"
        "advance_stages P2 t = Inr (t2, ev2)" "same_view s2 t2"
        "I1 (branch_predictor s2)" "I2 (branch_predictor t2)"
    by blast
  then show ?thesis
  proof cases
    case err
    then show ?thesis by (simp add: step_def)
  next
    case ok
    let ?rs = "resolve_stage P1 s2 ev2" and ?rt = "resolve_stage P2 t2 ev2"
    note r = resolve_stage_det [OF ok(3) d1 d2 ok(4,5), of ev2]
    have hv: "heap (fst ?rs) = heap (fst ?rt)" "pipeline_regs (fst ?rs) = pipeline_regs (fst ?rt)"
      "stages (fst ?rs) = stages (fst ?rt)"
      using r(1) by (simp_all add: same_view_def)
    let ?snap = "snapshot (heap (fst ?rt)) (pipeline_regs (fst ?rt))
        [0..<length (stages (fst ?rt))] (snd ?rt)"
    have s1: "step P1 s = bindE ?snap
        (\<lambda>ev. Inr ((fst ?rs)\<lparr>timeline := timeline (fst ?rs) @ [ev]\<rparr>))"
      by (simp add: step_def ok(1) Let_def hv r(2))
    have s2: "step P2 t = bindE ?snap
        (\<lambda>ev. Inr ((fst ?rt)\<lparr>timeline := timeline (fst ?rt) @ [ev]\<rparr>))"
      by (simp add: step_def ok(2) Let_def)
    show ?thesis
    proof (cases ?snap)
      case (Inl e)
      then show ?thesis by (simp add: s1 s2 error_is_IndexError [of e])
    next
      case (Inr ev)
      have "same_view ((fst ?rs)\<lparr>timeline := timeline (fst ?rs) @ [ev]\<rparr>)
          ((fst ?rt)\<lparr>timeline := timeline (fst ?rt) @ [ev]\<rparr>)"
        using r(1) by (simp add: same_view_def)
      then show ?thesis using r(3,4) by (simp add: s1 s2 Inr)
    qed
  qed
qed

lemma run_det:
  assumes d1: "deterministic_on I1 P1 f g" and d2: "deterministic_on I2 P2 f g"
  shows "same_view s t \<Longrightarrow> I1 (branch_predictor s) \<Longrightarrow> I2 (branch_predictor t) \<Longrightarrow>
         (run P1 n s = Inl IndexError \<and> run P2 n t = Inl IndexError) \<or>
         (\<exists>s' t'. run P1 n s = Inr s' \<and> run P2 n t = Inr t' \<and> same_view s' t')"
proof (induction n arbitrary: s t)
  case 0
  then show ?case by simp
next
  case (Suc n)
  from step_det [OF Suc.prems(1) d1 d2 Suc.prems(2,3)] show ?case
  proof (elim disjE conjE exE)
    assume "step P1 s = Inl IndexError" and "step P2 t = Inl IndexError"
    then show ?thesis by simp
  next
    fix s1 t1
    assume st: "step P1 s = Inr s1" "step P2 t = Inr t1"
      and v: "same_view s1 t1" and i: "I1 (branch_predictor s1)" "I2 (branch_predictor t1)"
    from Suc.IH [OF v i] show ?thesis by (simp add: st)
  qed
qed

text \<open>
  Claim C8, determinism. Let the predictor's two operations answer as functions of the
  instruction alone. Then two runs of the same number of cycles, from engines built on
  the same stage list, the same instruction sequence and the same instruction objects,
  end alike whatever the predictors' own states are: both raise, or both return and
  their timelines are the same list of event records.
\<close>

theorem deterministic_timeline:
  assumes "deterministic_on I1 P1 f g" and "deterministic_on I2 P2 f g"
    and "I1 p1" and "I2 p2"
  shows "map_sum id timeline (run P1 n (Pipeline_init stgs prog p1 h)) =
         map_sum id timeline (run P2 n (Pipeline_init stgs prog p2 h))"
proof -
  have v: "same_view (Pipeline_init stgs prog p1 h) (Pipeline_init stgs prog p2 h)"
    by (simp add: same_view_def Pipeline_init_def)
  have i1: "I1 (branch_predictor (Pipeline_init stgs prog p1 h))"
    and i2: "I2 (branch_predictor (Pipeline_init stgs prog p2 h))"
    using assms(3,4) by (simp_all add: Pipeline_init_def)
  from run_det [OF assms(1,2) v i1 i2, of n] show ?thesis
  proof (elim disjE conjE exE)
    assume "run P1 n (Pipeline_init stgs prog p1 h) = Inl IndexError"
      and "run P2 n (Pipeline_init stgs prog p2 h) = Inl IndexError"
    then show ?thesis by simp
  next
    fix s' t'
    assume "run P1 n (Pipeline_init stgs prog p1 h) = Inr s'"
      and "run P2 n (Pipeline_init stgs prog p2 h) = Inr t'" and "same_view s' t'"
    then show ?thesis by (simp add: same_view_def)
  qed
qed

lemma static_test_predictor_deterministic:
  "deterministic_on (\<lambda>p. mode p = ''static_not_taken'') static_test_predictor
     (\<lambda>i. False) (\<lambda>i. True)"
  by (simp add: deterministic_on_def static_test_predictor_def SimpleBranchPredictor_predict_def)

theorem deterministic_timeline_witness:
  "deterministic_on (\<lambda>p. mode p = ''static_not_taken'') static_test_predictor
     (\<lambda>i. False) (\<lambda>i. True) \<and>
   mode bits_true = ''static_not_taken'' \<and> mode bits_false = ''static_not_taken'' \<and>
   random_bits bits_true 0 \<noteq> random_bits bits_false 0 \<and>
   map_sum id timeline (run static_test_predictor 3
     (Pipeline_init main_stages [2, 3, 4] bits_true (objects_of sample_program))) =
   map_sum id timeline (run static_test_predictor 3
     (Pipeline_init main_stages [2, 3, 4] bits_false (objects_of sample_program))) \<and>
   isl (run static_test_predictor 3
     (Pipeline_init main_stages [2, 3, 4] bits_true (objects_of sample_program))) = False"
proof -
  have m1: "mode bits_true = ''static_not_taken''" and m2: "mode bits_false = ''static_not_taken''"
    by (simp_all add: bits_true_def bits_false_def)
  have ne: "random_bits bits_true 0 \<noteq> random_bits bits_false 0"
    by (simp add: bits_true_def bits_false_def)
  note d = static_test_predictor_deterministic
  have ok: "isl (run static_test_predictor 3
     (Pipeline_init main_stages [2, 3, 4] bits_true (objects_of sample_program))) = False"
    by (simp add: static_test_predictor_def bits_true_def engine_eval)
  have e: "map_sum id timeline (run static_test_predictor 3
     (Pipeline_init main_stages [2, 3, 4] bits_true (objects_of sample_program))) =
   map_sum id timeline (run static_test_predictor 3
     (Pipeline_init main_stages [2, 3, 4] bits_false (objects_of sample_program)))"
    by (rule deterministic_timeline [where ?I1.0 = "\<lambda>p. mode p = ''static_not_taken''"
          and ?I2.0 = "\<lambda>p. mode p = ''static_not_taken''" and ?P1.0 = static_test_predictor
          and ?P2.0 = static_test_predictor and f = "\<lambda>i. False" and g = "\<lambda>i. True"
          and ?p1.0 = bits_true and ?p2.0 = bits_false and n = 3 and stgs = main_stages
          and prog = "[2, 3, 4]" and h = "objects_of sample_program", OF d d m1 m2])
  show ?thesis by (intro conjI d m1 m2 ne e ok)
qed

end
